theory Spec2Isabelle
  imports Main
begin

section \<open>The event router (\<open>AnalysisFiles\<close>, server.ts lines 28--96)\<close>

text \<open>
  \<open>enum EventStream { Invalid, Diagnostics, CodeLens }\<close>. The comparison
  \<open>handler.stream == stream\<close> of two enum members is equality of the constructors.
\<close>

datatype EventStream = Invalid | Diagnostics | CodeLens

text \<open>
  What a JavaScript call hands back: \<open>undefined\<close> (a function body that ends
  without \<open>return\<close>, and a \<open>void\<close> callback) or a proper value.
\<close>

datatype 'a js = Undefined | Value 'a

text \<open>
  \<open>class AnalysisFileHandler\<close>. The field \<open>matcher\<close> holds the compiled regular
  expression; the program only ever calls its \<open>test\<close> method, and a \<open>RegExp\<close> built
  without flags keeps no state between calls, so the field is that predicate on strings.
  The callback is a closure; it is kept as a value of a type \<open>'c\<close> of closures and
  run by an interpreter \<open>call\<close> that the operations take as an argument. (The source
  calls this field \<open>callback\<close>; the name is used below for the aggregator's field.)
\<close>

record 'c AnalysisFileHandler =
  matcher :: "string \<Rightarrow> bool"
  stream :: EventStream
  handler_callback :: 'c

text \<open>
  \<open>class AnalysisFiles\<close>: the registrations in registration order, and the last known
  text of every document (\<open>file_data\<close>, written and read as \<open>file_data[uri]\<close>).
\<close>

record 'c AnalysisFiles =
  handlers :: "'c AnalysisFileHandler list"
  file_data :: "string \<rightharpoonup> string"

definition AnalysisFiles_new :: "'c AnalysisFiles" where
  "AnalysisFiles_new = \<lparr>handlers = [], file_data = Map.empty\<rparr>"

text \<open>
  \<open>new AnalysisFileHandler(matcher, stream, cb)\<close> compiles the pattern with
  \<open>new RegExp(matcher)\<close>. The regular-expression engine belongs to the JavaScript
  runtime: the argument \<open>re\<close> gives it, \<open>re p s\<close> being \<open>new RegExp(p).test(s)\<close>.
\<close>

definition AnalysisFileHandler_new ::
  "(string \<Rightarrow> string \<Rightarrow> bool) \<Rightarrow> string \<Rightarrow> EventStream \<Rightarrow> 'c \<Rightarrow> 'c AnalysisFileHandler" where
  "AnalysisFileHandler_new re m s cb = \<lparr>matcher = re m, stream = s, handler_callback = cb\<rparr>"

text \<open>\<open>on(stream, matcher, cb)\<close>: \<open>this.handlers.push(...)\<close>, then \<open>return this\<close>.\<close>

definition on ::
  "(string \<Rightarrow> string \<Rightarrow> bool) \<Rightarrow> EventStream \<Rightarrow> string \<Rightarrow> 'c \<Rightarrow> 'c AnalysisFiles \<Rightarrow> 'c AnalysisFiles" where
  "on re s m cb fs = fs\<lparr>handlers := handlers fs @ [AnalysisFileHandler_new re m s cb]\<rparr>"

text \<open>
  \<open>run(stream, uri, file, contents)\<close>: the \<open>for ... of\<close> loop over \<open>this.handlers\<close>,
  returning from inside the loop at the first handler that passes the test. A callback
  works on the rest of the program's state \<open>'w\<close> and returns a value; falling off the
  end of the loop returns \<open>undefined\<close> and touches nothing.
\<close>

fun run_loop ::
  "('c \<Rightarrow> string \<Rightarrow> string \<Rightarrow> 'x \<Rightarrow> 'w \<Rightarrow> 'r js \<times> 'w) \<Rightarrow> 'c AnalysisFileHandler list \<Rightarrow>
     EventStream \<Rightarrow> string \<Rightarrow> string \<Rightarrow> 'x \<Rightarrow> 'w \<Rightarrow> 'r js \<times> 'w" where
  "run_loop call [] s uri file contents w = (Undefined, w)"
| "run_loop call (handler # rest) s uri file contents w =
     (if stream handler = s \<and> matcher handler file
      then call (handler_callback handler) uri file contents w
      else run_loop call rest s uri file contents w)"

definition run ::
  "('c \<Rightarrow> string \<Rightarrow> string \<Rightarrow> 'x \<Rightarrow> 'w \<Rightarrow> 'r js \<times> 'w) \<Rightarrow> 'c AnalysisFiles \<Rightarrow>
     EventStream \<Rightarrow> string \<Rightarrow> string \<Rightarrow> 'x \<Rightarrow> 'w \<Rightarrow> 'r js \<times> 'w" where
  "run call fs s uri file contents w = run_loop call (handlers fs) s uri file contents w"

section \<open>The aggregator (\<open>Aggregator\<close>, server.ts lines 128--158)\<close>

text \<open>
  A JavaScript \<open>Map\<close> keeps its entries in insertion order; \<open>set\<close> on a key that is
  present replaces the value in place, on a new key it adds an entry at the end. Keys
  of type \<open>IDependency\<close> are objects, compared by identity: \<open>'k\<close> is the type of those
  object identities.
\<close>

fun Map_set :: "'k \<Rightarrow> 'v \<Rightarrow> ('k \<times> 'v) list \<Rightarrow> ('k \<times> 'v) list" where
  "Map_set k v [] = [(k, v)]"
| "Map_set k v (e # m) = (if fst e = k then (k, v) # m else e # Map_set k v m)"

text \<open>
  \<open>class Aggregator\<close>. The field \<open>diagnostics\<close> of the source is declared and never
  read or written; the callback is a closure of type \<open>'c\<close>, as for the router.
\<close>

record ('k, 'c) Aggregator =
  mapping :: "('k \<times> bool) list"
  callback :: 'c

text \<open>
  The constructor: an empty \<open>Map\<close>, then \<open>this.mapping.set(item, false)\<close> for every
  item. It does nothing else: it has no access to the program's state, and does not call
  the callback.
\<close>

definition Aggregator_new :: "'k list \<Rightarrow> 'c \<Rightarrow> ('k, 'c) Aggregator" where
  "Aggregator_new items cb =
     \<lparr>mapping = foldl (\<lambda>m item. Map_set item False m) [] items, callback = cb\<rparr>"

text \<open>\<open>is_ready()\<close>: \<open>val = val && m[1]\<close> over the entries, from \<open>val = true\<close>.\<close>

definition is_ready :: "('k, 'c) Aggregator \<Rightarrow> bool" where
  "is_ready a = foldl (\<lambda>val m. val \<and> snd m) True (mapping a)"

text \<open>
  \<open>aggregate(dep)\<close>: \<open>this.mapping.set(dep, true)\<close>, then the callback when
  \<open>is_ready()\<close> holds. The callback acts on the program's state \<open>'w\<close>; the aggregator
  is not part of what it can change.
\<close>

definition aggregate ::
  "('c \<Rightarrow> 'w \<Rightarrow> 'w) \<Rightarrow> 'k \<Rightarrow> ('k, 'c) Aggregator \<Rightarrow> 'w \<Rightarrow> ('k, 'c) Aggregator \<times> 'w" where
  "aggregate call dep a w =
     (let a' = a\<lparr>mapping := Map_set dep True (mapping a)\<rparr>
      in if is_ready a' then (a', call (callback a') w) else (a', w))"

text \<open>A sequence of \<open>aggregate\<close> calls on one aggregator, in the order given.\<close>

fun aggregate_all ::
  "('c \<Rightarrow> 'w \<Rightarrow> 'w) \<Rightarrow> 'k list \<Rightarrow> ('k, 'c) Aggregator \<Rightarrow> 'w \<Rightarrow> ('k, 'c) Aggregator \<times> 'w" where
  "aggregate_all call [] a w = (a, w)"
| "aggregate_all call (dep # deps) a w =
     (case aggregate call dep a w of (a', w') \<Rightarrow> aggregate_all call deps a' w')"

section \<open>The server as an event-driven program (server.ts lines 98--126 and 160--305)\<close>

subsection \<open>What the program takes from outside\<close>

text \<open>
  The program runs on one thread: every callback runs to its end before the next one
  starts, so a run of the server is a sequence of callback invocations, each a function
  from state to state.

  \<open>JSON.parse\<close> either throws, or yields \<open>null\<close>, or yields a value on which a
  property can be read (\<open>'d\<close> is the type of those values).
\<close>

datatype 'd parsed = Throws | Null | Val 'd

text \<open>
  The parts of the JavaScript runtime, of Node's libraries and of the repository's
  other modules that the code of server.ts calls. None of them is defined in server.ts:
  \<^item> \<open>RegExp_test p s\<close> is \<open>new RegExp(p).test(s)\<close>;
  \<^item> \<open>url_pathname uri\<close> is \<open>url.parse(uri).pathname\<close>: a string, or \<open>null\<close>
    (here \<open>None\<close>) for a URI without a path, such as \<open>untitled:Untitled-1\<close>;
  \<^item> \<open>path_basename p\<close> is \<open>path.basename(p)\<close> for a string \<open>p\<close>; on \<open>null\<close>,
    \<open>path.basename\<close> throws a \<open>TypeError\<close>, which the two callers below spell out;
  \<^item> \<open>JSON_parse\<close> is \<open>JSON.parse\<close>;
  \<^item> \<open>status_success d\<close> is the test \<open>d.status == 'success'\<close>, \<open>error_undefined d\<close>
    the test \<open>d.error === undefined\<close>, and \<open>id_of d\<close> is \<open>d.id\<close> as the template
    string \<open>${id}\<close> renders it;
  \<^item> \<open>server_url\<close> is \<open>config.server_url\<close>, fixed once the module is loaded;
  \<^item> \<open>dep_name k\<close> and \<open>dep_version k\<close> are \<open>k.name.value\<close> and \<open>k.version.value\<close>
    of the dependency object \<open>k\<close>;
  \<^item> \<open>pipeline_run k d buf\<close> is the buffer \<open>diagnostics\<close> after
    \<open>new DiagnosticsPipeline(DiagnosticsEngines, k, config, diagnostics).run(d)\<close>,
    from the buffer \<open>buf\<close> before it (module \<open>./consumers\<close>).
\<close>

record ('k, 'd, 'g) env =
  RegExp_test :: "string \<Rightarrow> string \<Rightarrow> bool"
  url_pathname :: "string \<Rightarrow> string option"
  path_basename :: "string \<Rightarrow> string"
  JSON_parse :: "string \<Rightarrow> 'd parsed"
  status_success :: "'d \<Rightarrow> bool"
  error_undefined :: "'d \<Rightarrow> bool"
  id_of :: "'d \<Rightarrow> string"
  server_url :: string
  dep_name :: "'k \<Rightarrow> string"
  dep_version :: "'k \<Rightarrow> string"
  pipeline_run :: "'k \<Rightarrow> 'd \<Rightarrow> 'g list \<Rightarrow> 'g list"

subsection \<open>State\<close>

text \<open>
  An operation the program has started and whose callback has not run yet. Each holds
  what the call was given and what its callback closes over:
  \<^item> \<open>Post query manifest origin file_uri\<close>: the \<open>request.post\<close> of
    \<open>get_stack_metadata\<close>;
  \<^item> \<open>Get query file_uri req_id\<close>: the \<open>request.get\<close> of \<open>stack_collector\<close>;
  \<^item> \<open>Timeout delay file_uri req_id\<close>: \<open>setTimeout(() => { stack_collector(file_uri, id) }, delay)\<close>;
  \<^item> \<open>Collect uri contents\<close>: the promise \<open>collector.collect(stream)\<close> with its
    \<open>then\<close> callback;
  \<^item> \<open>HttpGet query r k\<close>: the \<open>http.get\<close> of \<open>get_metadata\<close>, whose callback
    \<open>cb\<close> closes over the dependency \<open>k\<close> and over the variables of the analysis run
    number \<open>r\<close>.
\<close>

datatype 'k pending =
    Post string "string option" string string
  | Get string string string
  | Timeout nat string string
  | Collect string "string option"
  | HttpGet string nat 'k

text \<open>
  The calls the program makes, in the order it makes them: every operation started,
  every \<open>pipeline.run(response)\<close>, every \<open>aggregator.aggregate(dependency)\<close> and every
  \<open>connection.sendDiagnostics({uri, diagnostics})\<close>.
\<close>

datatype ('k, 'd, 'g) effect =
    Started "'k pending"
  | Pipeline nat 'k 'd
  | Aggregated nat 'k
  | Sent string "'g list"

text \<open>
  The variables of one invocation of the \<open>then\<close> callback (lines 276--291), shared by
  the closures it creates: \<open>uri\<close>, the buffer \<open>diagnostics\<close> and \<open>aggregator\<close>. The
  aggregator's callback is the closure \<open>() => connection.sendDiagnostics(...)\<close> of that
  run, named by the run's number.
\<close>

record ('k, 'g) analysis =
  run_uri :: string
  diagnostics :: "'g list"
  aggregator :: "('k, nat) Aggregator"

text \<open>The one closure ever registered with the router (line 269).\<close>

datatype handler = PackageJson

record ('k, 'd, 'g) state =
  files :: "handler AnalysisFiles"
  stack_analysis_requests :: "string \<rightharpoonup> string"
  stack_analysis_responses :: "string \<rightharpoonup> 'd"
  analyses :: "('k, 'g) analysis list"
  pending :: "'k pending list"
  log :: "('k, 'd, 'g) effect list"

text \<open>The second argument of \<open>get_stack_metadata\<close>.\<close>

record stack_context =
  manifest :: "string option"
  origin :: "string option"

text \<open>
  The pattern of line 269: the characters \<open>^package\<close>, a backslash, \<open>.json$\<close>.
\<close>

definition package_json_pattern :: string where
  "package_json_pattern = ''^package'' @ [CHR 0x5C] @ ''.json$''"

text \<open>Module initialisation: the tables are empty, and \<open>files.on\<close> is called once.\<close>

definition init :: "('k, 'd, 'g) env \<Rightarrow> ('k, 'd, 'g) state" where
  "init env =
     \<lparr>files = on (RegExp_test env) Diagnostics package_json_pattern PackageJson AnalysisFiles_new,
      stack_analysis_requests = Map.empty,
      stack_analysis_responses = Map.empty,
      analyses = [],
      pending = [],
      log = []\<rparr>"

text \<open>
  Starting an operation: the call is made (and enters the log), and its callback waits
  with the pending operations.
\<close>

definition start :: "'k pending \<Rightarrow> ('k, 'd, 'g) state \<Rightarrow> ('k, 'd, 'g) state" where
  "start p st = st\<lparr>pending := pending st @ [p], log := log st @ [Started p]\<rparr>"

subsection \<open>Stack analysis (lines 200--249)\<close>

text \<open>\<open>stack_collector(file_uri, id)\<close>: builds the query and calls \<open>request.get\<close>.\<close>

definition stack_collector ::
  "('k, 'd, 'g) env \<Rightarrow> string \<Rightarrow> string \<Rightarrow> ('k, 'd, 'g) state \<Rightarrow> ('k, 'd, 'g) state" where
  "stack_collector env file_uri req_id st =
     (let query = server_url env @ ''/stack-analyses/'' @ req_id
      in start (Get query file_uri req_id) st)"

text \<open>
  How a started operation ends. \<open>request\<close> calls back with \<open>(err, httpResponse, body)\<close>:
  \<open>Failed\<close> is a call with \<open>err\<close> set (and no response and no body), \<open>Response code body\<close>
  one with \<open>err\<close> null. For \<open>http.get\<close>, \<open>Response code body\<close> is the \<open>end\<close> event
  of a response with that status code, \<open>body\<close> being the chunks received. A timer
  fires; a promise is resolved with the dependencies or rejected.
\<close>

datatype 'k completion =
    Failed
  | Response nat string
  | Fired
  | Resolved "'k list"
  | Rejected

text \<open>
  An exception that leaves a callback. \<open>NotPending\<close> is not an exception of the
  program: it marks an event that cannot happen (a callback of an operation that is not
  pending, or of the wrong kind).
\<close>

datatype error = SyntaxError | TypeError | NotPending

text \<open>
  The callback of \<open>request.get\<close> in \<open>stack_collector\<close> (lines 203--215). It does not
  look at \<open>err\<close>: with \<open>err\<close> set, \<open>body\<close> is \<open>undefined\<close> and \<open>JSON.parse\<close> throws.
  Reading \<open>data.status\<close> of \<open>null\<close> throws as well.
\<close>

fun stack_collector_cb ::
  "('k, 'd, 'g) env \<Rightarrow> string \<Rightarrow> string \<Rightarrow> 'k completion \<Rightarrow> ('k, 'd, 'g) state \<Rightarrow>
     error + ('k, 'd, 'g) state" where
  "stack_collector_cb env file_uri req_id Failed st = Inl SyntaxError"
| "stack_collector_cb env file_uri req_id (Response code body) st =
     (case JSON_parse env body of
        Throws \<Rightarrow> Inl SyntaxError
      | Null \<Rightarrow> Inl TypeError
      | Val data \<Rightarrow>
          if status_success env data
          then Inr (st\<lparr>stack_analysis_responses := (stack_analysis_responses st)(file_uri \<mapsto> data)\<rparr>)
          else if code = 202
          then Inr (start (Timeout 10000 file_uri req_id) st)
          else Inr st)"
| "stack_collector_cb env file_uri req_id _ st = Inl NotPending"

text \<open>
  \<open>get_stack_metadata(file_uri, context)\<close>, the context being \<open>ctxt\<close>. The test \<open>file_uri in stack_analysis_requests\<close>
  reads the table that line 241 writes with \<open>stack_analysis_requests[file_uri] = resp.id\<close>.
  (Document URIs carry a scheme and a colon, so none is the name of a property that the
  table object inherits.) \<open>context.origin || 'lsp'\<close> is \<open>'lsp'\<close> when the origin is
  undefined or the empty string.
\<close>

definition get_stack_metadata ::
  "('k, 'd, 'g) env \<Rightarrow> string \<Rightarrow> stack_context \<Rightarrow> ('k, 'd, 'g) state \<Rightarrow> ('k, 'd, 'g) state" where
  "get_stack_metadata env file_uri ctxt st =
     (if file_uri \<in> dom (stack_analysis_requests st) then st
      else
        let query = server_url env @ ''/stack-analyses/'';
            origin' = (case origin ctxt of None \<Rightarrow> ''lsp'' | Some s \<Rightarrow> if s = [] then ''lsp'' else s)
        in start (Post query (manifest ctxt) origin' file_uri) st)"

text \<open>The callback of \<open>request.post\<close> (lines 237--248).\<close>

fun get_stack_metadata_cb ::
  "('k, 'd, 'g) env \<Rightarrow> string \<Rightarrow> 'k completion \<Rightarrow> ('k, 'd, 'g) state \<Rightarrow> error + ('k, 'd, 'g) state" where
  "get_stack_metadata_cb env file_uri Failed st = Inr st"
| "get_stack_metadata_cb env file_uri (Response code body) st =
     (case JSON_parse env body of
        Throws \<Rightarrow> Inl SyntaxError
      | Null \<Rightarrow> Inl TypeError
      | Val resp \<Rightarrow>
          if error_undefined env resp \<and> status_success env resp
          then Inr (start (Timeout 10000 file_uri (id_of env resp))
                 (st\<lparr>stack_analysis_requests := (stack_analysis_requests st)(file_uri \<mapsto> id_of env resp)\<rparr>))
          else Inr st)"
| "get_stack_metadata_cb env file_uri _ st = Inl NotPending"

subsection \<open>Component analysis (lines 251--292)\<close>

text \<open>\<open>get_metadata(ecosystem, name, version, cb)\<close>, \<open>cb\<close> being the closure for \<open>r\<close> and \<open>k\<close>.\<close>

definition get_metadata ::
  "('k, 'd, 'g) env \<Rightarrow> string \<Rightarrow> string \<Rightarrow> string \<Rightarrow> nat \<Rightarrow> 'k \<Rightarrow> ('k, 'd, 'g) state \<Rightarrow> ('k, 'd, 'g) state" where
  "get_metadata env ecosystem name version r k st =
     (let part = ecosystem @ ''/'' @ name @ ''/'' @ version;
          query = server_url env @ ''/analyses/'' @ part @ ''/''
      in start (HttpGet query r k) st)"

text \<open>The aggregator's callback of run \<open>r\<close> (lines 279--281).\<close>

definition send_diagnostics :: "nat \<Rightarrow> ('k, 'd, 'g) state \<Rightarrow> ('k, 'd, 'g) state" where
  "send_diagnostics r st =
     st\<lparr>log := log st @ [Sent (run_uri (analyses st ! r)) (diagnostics (analyses st ! r))]\<rparr>"

text \<open>
  The callback handed to \<open>get_metadata\<close> (lines 283--289), \<open>response\<close> being \<open>None\<close>
  for \<open>null\<close>: the pipeline under the guard \<open>response != null\<close>, then
  \<open>aggregator.aggregate(dependency)\<close>.
\<close>

definition run_pipeline ::
  "('k, 'd, 'g) env \<Rightarrow> nat \<Rightarrow> 'k \<Rightarrow> 'd \<Rightarrow> ('k, 'd, 'g) state \<Rightarrow> ('k, 'd, 'g) state" where
  "run_pipeline env r k d st =
     st\<lparr>analyses := (analyses st)[r := (analyses st ! r)
            \<lparr>diagnostics := pipeline_run env k d (diagnostics (analyses st ! r))\<rparr>],
        log := log st @ [Pipeline r k d]\<rparr>"

definition aggregate_dependency :: "nat \<Rightarrow> 'k \<Rightarrow> ('k, 'd, 'g) state \<Rightarrow> ('k, 'd, 'g) state" where
  "aggregate_dependency r k st =
     (case aggregate send_diagnostics k (aggregator (analyses st ! r))
             (st\<lparr>log := log st @ [Aggregated r k]\<rparr>) of
        (a', st') \<Rightarrow> st'\<lparr>analyses := (analyses st')[r := (analyses st' ! r)\<lparr>aggregator := a'\<rparr>]\<rparr>)"

definition metadata_cb ::
  "('k, 'd, 'g) env \<Rightarrow> nat \<Rightarrow> 'k \<Rightarrow> 'd option \<Rightarrow> ('k, 'd, 'g) state \<Rightarrow> ('k, 'd, 'g) state" where
  "metadata_cb env r k response st =
     aggregate_dependency r k
       (case response of None \<Rightarrow> st | Some d \<Rightarrow> run_pipeline env r k d st)"

text \<open>The \<open>end\<close> handler of the response in \<open>get_metadata\<close> (lines 258--265).\<close>

fun get_metadata_end ::
  "('k, 'd, 'g) env \<Rightarrow> nat \<Rightarrow> 'k \<Rightarrow> 'k completion \<Rightarrow> ('k, 'd, 'g) state \<Rightarrow> error + ('k, 'd, 'g) state" where
  "get_metadata_end env r k (Response code body) st =
     (if code = 200 \<or> code = 202
      then (case JSON_parse env body of
              Throws \<Rightarrow> Inl SyntaxError
            | Null \<Rightarrow> Inr (metadata_cb env r k None st)
            | Val response \<Rightarrow> Inr (metadata_cb env r k (Some response) st))
      else Inr (metadata_cb env r k None st))"
| "get_metadata_end env r k _ st = Inl NotPending"

text \<open>
  The \<open>then\<close> callback (lines 276--291): a fresh buffer and aggregator, then one
  \<open>get_metadata\<close> per dependency, in the order of \<open>deps\<close>.
\<close>

definition collected ::
  "('k, 'd, 'g) env \<Rightarrow> string \<Rightarrow> 'k list \<Rightarrow> ('k, 'd, 'g) state \<Rightarrow> ('k, 'd, 'g) state" where
  "collected env uri deps st =
     (let r = length (analyses st);
          st' = st\<lparr>analyses := analyses st @
                  [\<lparr>run_uri = uri, diagnostics = [], aggregator = Aggregator_new deps r\<rparr>]\<rparr>
      in foldl (\<lambda>s dependency.
           get_metadata env ''npm'' (dep_name env dependency) (dep_version env dependency) r dependency s)
           st' deps)"

text \<open>The handler registered for \<open>package.json\<close> (lines 269--292); it returns nothing.\<close>

definition package_json ::
  "('k, 'd, 'g) env \<Rightarrow> string \<Rightarrow> string \<Rightarrow> string option \<Rightarrow> ('k, 'd, 'g) state \<Rightarrow>
     'l js \<times> ('k, 'd, 'g) state" where
  "package_json env uri name contents st =
     (Undefined,
      start (Collect uri contents) (get_stack_metadata env uri \<lparr>manifest = contents, origin = None\<rparr> st))"

fun call_handler ::
  "('k, 'd, 'g) env \<Rightarrow> handler \<Rightarrow> string \<Rightarrow> string \<Rightarrow> string option \<Rightarrow> ('k, 'd, 'g) state \<Rightarrow>
     'l js \<times> ('k, 'd, 'g) state" where
  "call_handler env PackageJson = package_json env"

subsection \<open>The server object and the editor's notifications (lines 107--126, 294--305)\<close>

text \<open>
  \<open>handle_file_event(uri, contents)\<close>, lines 110--117. The first two lines are
  \<open>url.parse(uri).pathname\<close> and \<open>path.basename(path_name)\<close>: when the path name is
  \<open>null\<close> the second throws, before \<open>file_data\<close> is written and before \<open>run\<close>.
\<close>

definition handle_file_event ::
  "('k, 'd, 'g) env \<Rightarrow> string \<Rightarrow> string option \<Rightarrow> ('k, 'd, 'g) state \<Rightarrow>
     error + ('k, 'd, 'g) state" where
  "handle_file_event env uri contents st =
     (case url_pathname env uri of
        None \<Rightarrow> Inl TypeError
      | Some path_name \<Rightarrow>
          let file_name = path_basename env path_name;
              st' = st\<lparr>files := (files st)\<lparr>file_data := (file_data (files st))(uri := contents)\<rparr>\<rparr>
          in Inr (snd (run (call_handler env :: handler \<Rightarrow> _ \<Rightarrow> _ \<Rightarrow> _ \<Rightarrow> _ \<Rightarrow> unit js \<times> _)
                     (files st') Diagnostics uri file_name contents st')))"

text \<open>
  \<open>handle_code_lens_event(uri)\<close>, lines 119--125, with the same two lines first: a
  \<open>TypeError\<close> for a URI without a path, and otherwise what \<open>run\<close> for the stream
  \<open>CodeLens\<close> returns.
\<close>

definition handle_code_lens_event ::
  "('k, 'd, 'g) env \<Rightarrow> string \<Rightarrow> ('k, 'd, 'g) state \<Rightarrow> error + 'l js \<times> ('k, 'd, 'g) state" where
  "handle_code_lens_event env uri st =
     (case url_pathname env uri of
        None \<Rightarrow> Inl TypeError
      | Some path_name \<Rightarrow>
          let file_name = path_basename env path_name;
              contents = file_data (files st) uri
          in Inr (run (call_handler env) (files st) CodeLens uri file_name contents st))"

text \<open>
  What reaches the program: the three notifications for which it registers a listener
  (\<open>DidChange\<close> carries the texts of \<open>params.contentChanges\<close>), and the end of the
  pending operation at a position of the list.
\<close>

datatype 'k event =
    DidOpen string string
  | DidChange string "string list"
  | DidSave string
  | Complete nat "'k completion"

text \<open>The callback of a pending operation, once the operation has left the list.\<close>

fun continue ::
  "('k, 'd, 'g) env \<Rightarrow> 'k pending \<Rightarrow> 'k completion \<Rightarrow> ('k, 'd, 'g) state \<Rightarrow> error + ('k, 'd, 'g) state" where
  "continue env (Post query m orig file_uri) c st = get_stack_metadata_cb env file_uri c st"
| "continue env (Get query file_uri req_id) c st = stack_collector_cb env file_uri req_id c st"
| "continue env (Timeout delay file_uri req_id) Fired st = Inr (stack_collector env file_uri req_id st)"
| "continue env (Collect uri contents) (Resolved deps) st = Inr (collected env uri deps st)"
| "continue env (Collect uri contents) Rejected st = Inr st"
| "continue env (HttpGet query r k) c st = get_metadata_end env r k c st"
| "continue env _ _ st = Inl NotPending"

definition remove_nth :: "nat \<Rightarrow> 'a list \<Rightarrow> 'a list" where
  "remove_nth i xs = take i xs @ drop (Suc i) xs"

fun deliver ::
  "('k, 'd, 'g) env \<Rightarrow> 'k event \<Rightarrow> ('k, 'd, 'g) state \<Rightarrow> error + ('k, 'd, 'g) state" where
  "deliver env (DidOpen uri text) st = handle_file_event env uri (Some text) st"
| "deliver env (DidChange uri []) st = Inl TypeError"
| "deliver env (DidChange uri (text # changes)) st =
     Inr (st\<lparr>files := (files st)\<lparr>file_data := (file_data (files st))(uri \<mapsto> text)\<rparr>\<rparr>)"
| "deliver env (DidSave uri) st = handle_file_event env uri (file_data (files st) uri) st"
| "deliver env (Complete i c) st =
     (if i < length (pending st)
      then continue env (pending st ! i) c (st\<lparr>pending := remove_nth i (pending st)\<rparr>)
      else Inl NotPending)"

text \<open>A run of the server: events one after the other, until a callback throws.\<close>

fun exec ::
  "('k, 'd, 'g) env \<Rightarrow> 'k event list \<Rightarrow> ('k, 'd, 'g) state \<Rightarrow> error + ('k, 'd, 'g) state" where
  "exec env [] st = Inr st"
| "exec env (ev # evs) st = (case deliver env ev st of Inl e \<Rightarrow> Inl e | Inr st' \<Rightarrow> exec env evs st')"

subsection \<open>Drivers and a runtime for concrete runs\<close>

text \<open>
  A registry built the way the program builds one: \<open>on\<close> once per registration
  \<open>(stream, matcher, cb)\<close>, in the order of the list, from \<open>new AnalysisFiles()\<close>.
\<close>

definition register_all ::
  "(string \<Rightarrow> string \<Rightarrow> bool) \<Rightarrow> (EventStream \<times> string \<times> 'c) list \<Rightarrow> 'c AnalysisFiles" where
  "register_all re regs = foldl (\<lambda>fs (s, m, cb). on re s m cb fs) AnalysisFiles_new regs"

text \<open>
  Concrete inputs: a document, three manifests (without dependencies, with the
  dependency \<open>dep\<close>, with \<open>dep\<close> and \<open>depx\<close>), and four response bodies (a successful
  submission or poll, the body that comes with status 202 while the analysis is in
  progress, an error, and the metadata of a component).
\<close>

definition package_uri :: string where
  "package_uri = ''file:///home/project/package.json''"

definition manifest_none :: string where
  \<open>manifest_none = ''{"name":"demo"}''\<close>

definition manifest_one :: string where
  \<open>manifest_one = ''{"dependencies":{"dep":"1.0.0"}}''\<close>

definition manifest_two :: string where
  \<open>manifest_two = ''{"dependencies":{"dep":"1.0.0","depx":"1.0.0"}}''\<close>

definition success_body :: string where
  \<open>success_body = ''{"status":"success","id":"42"}''\<close>

definition progress_body :: string where
  \<open>progress_body = ''{"error":"in progress"}''\<close>

definition error_body :: string where
  \<open>error_body = ''{"error":"internal error"}''\<close>

definition payload_body :: string where
  \<open>payload_body = ''{"result":{"data":[]}}''\<close>

text \<open>
  One runtime, to run the model on these inputs. The only pattern is that of line 269,
  which matches the file name \<open>package.json\<close> and no other; a URI that starts with
  \<open>file://\<close> has the rest as its path, and any other URI (the runs below use
  \<open>untitled:Untitled-1\<close>) has none; the base name is what follows the last slash. The
  four bodies
  parse, each to a value that is represented by the body itself, \<open>null\<close> parses to
  \<open>null\<close>, and other bodies (the empty one among them) are taken not to parse. The
  dependency object number \<open>k\<close> has the name \<open>dep\<close> followed by \<open>k\<close> letters \<open>x\<close>, and
  the version \<open>1.0.0\<close>. The pipeline appends the response to the buffer.
\<close>

definition sample_env :: "(nat, string, string) env" where
  "sample_env =
     \<lparr>RegExp_test = (\<lambda>p s. p = package_json_pattern \<and> s = ''package.json''),
      url_pathname = (\<lambda>uri. if take 7 uri = ''file://'' then Some (drop 7 uri) else None),
      path_basename = (\<lambda>p. rev (takeWhile (\<lambda>c. c \<noteq> CHR ''/'') (rev p))),
      JSON_parse = (\<lambda>body.
        if body = success_body \<or> body = progress_body \<or> body = error_body \<or> body = payload_body
        then Val body else if body = ''null'' then Null else Throws),
      status_success = (\<lambda>d. d = success_body),
      error_undefined = (\<lambda>d. d \<noteq> progress_body \<and> d \<noteq> error_body),
      id_of = (\<lambda>d. if d = success_body then ''42'' else ''undefined''),
      server_url = ''http://host/api/v1'',
      dep_name = (\<lambda>k. ''dep'' @ replicate k CHR ''x''),
      dep_version = (\<lambda>k. ''1.0.0''),
      pipeline_run = (\<lambda>k d buf. buf @ [d])\<rparr>"

text \<open>The dependencies whose \<open>http.get\<close> is pending, each with its run.\<close>

fun fetch_key :: "'k pending \<Rightarrow> (nat \<times> 'k) list" where
  "fetch_key (HttpGet query r k) = [(r, k)]"
| "fetch_key _ = []"

definition fetch_keys :: "'k pending list \<Rightarrow> (nat \<times> 'k) list" where
  "fetch_keys ps = concat (map fetch_key ps)"

text \<open>
  The log with the state left out, and the pending operations, after a run from module
  initialisation; \<open>None\<close> when a callback threw.
\<close>

definition run_log :: "('k, 'd, 'g) env \<Rightarrow> 'k event list \<Rightarrow> ('k, 'd, 'g) effect list option" where
  "run_log env evs = (case exec env evs (init env) of Inl e \<Rightarrow> None | Inr st \<Rightarrow> Some (log st))"

definition run_pending :: "('k, 'd, 'g) env \<Rightarrow> 'k event list \<Rightarrow> 'k pending list option" where
  "run_pending env evs = (case exec env evs (init env) of Inl e \<Rightarrow> None | Inr st \<Rightarrow> Some (pending st))"

definition run_error :: "('k, 'd, 'g) env \<Rightarrow> 'k event list \<Rightarrow> error option" where
  "run_error env evs = (case exec env evs (init env) of Inl e \<Rightarrow> Some e | Inr st \<Rightarrow> None)"

text \<open>
  The state after a run from module initialisation (the initial state, should a callback
  have thrown), and three runs: the document without dependencies is opened and its
  stack analysis is accepted (the poll timer is pending); the timer has fired (the poll is
  pending); the document with two dependencies is opened and the collector has
  resolved (both fetches are pending).
\<close>

definition state_after :: "('k, 'd, 'g) env \<Rightarrow> 'k event list \<Rightarrow> ('k, 'd, 'g) state" where
  "state_after env evs = (case exec env evs (init env) of Inl e \<Rightarrow> init env | Inr st \<Rightarrow> st)"

definition waiting_events :: "nat event list" where
  "waiting_events = [DidOpen package_uri manifest_none, Complete 0 (Response 200 success_body)]"

definition polling_events :: "nat event list" where
  "polling_events = waiting_events @ [Complete 1 Fired]"

definition fetching_events :: "nat event list" where
  "fetching_events = [DidOpen package_uri manifest_two, Complete 1 (Resolved [0, 1])]"

subsection \<open>Notions used in the proofs\<close>

text \<open>
  \<open>ordered lg\<close>: no \<open>pipeline.run\<close> for a dependency of a run comes later in \<open>lg\<close>
  than an \<open>aggregate\<close> of that dependency in that run.
\<close>

fun pipeline_of :: "nat \<Rightarrow> 'k \<Rightarrow> ('k, 'd, 'g) effect \<Rightarrow> bool" where
  "pipeline_of r k (Pipeline r' k' d) = (r' = r \<and> k' = k)"
| "pipeline_of r k _ = False"

fun ordered :: "('k, 'd, 'g) effect list \<Rightarrow> bool" where
  "ordered [] = True"
| "ordered (Aggregated r k # es) = ((\<forall>e\<in>set es. \<not> pipeline_of r k e) \<and> ordered es)"
| "ordered (e # es) = ordered es"

text \<open>
  The invariant of a run: no dependency of a run has two fetches pending; a pending
  fetch belongs to a run that exists and its dependency has not been aggregated; every
  aggregation in the log is of a run that exists; and the log is ordered.
\<close>

definition fetch_inv :: "('k, 'd, 'g) state \<Rightarrow> bool" where
  "fetch_inv st \<longleftrightarrow>
     distinct (fetch_keys (pending st)) \<and>
     (\<forall>(r, k)\<in>set (fetch_keys (pending st)). r < length (analyses st) \<and> Aggregated r k \<notin> set (log st)) \<and>
     (\<forall>r k. Aggregated r k \<in> set (log st) \<longrightarrow> r < length (analyses st)) \<and>
     ordered (log st)"

text \<open>
  A step from \<open>st\<close> to \<open>st'\<close> that registers no handler, leaves the analysis runs
  alone and only starts operations other than fetches.
\<close>

definition quiet :: "('k, 'd, 'g) state \<Rightarrow> ('k, 'd, 'g) state \<Rightarrow> bool" where
  "quiet st st' \<longleftrightarrow>
     handlers (files st') = handlers (files st) \<and> analyses st' = analyses st \<and>
     (\<exists>new. pending st' = pending st @ new \<and> fetch_keys new = [] \<and> log st' = log st @ map Started new)"

section \<open>Properties of the aggregator\<close>

lemma foldl_and: "foldl (\<lambda>val m. val \<and> snd m) b xs \<longleftrightarrow> b \<and> (\<forall>e\<in>set xs. snd e)"
  by (induction xs arbitrary: b) auto

lemma is_ready_iff: "is_ready a \<longleftrightarrow> (\<forall>e\<in>set (mapping a). snd e)"
  by (simp add: is_ready_def foldl_and)

lemma map_of_Map_set: "map_of (Map_set k v m) = (map_of m)(k \<mapsto> v)"
  by (induction m) (auto simp: fun_eq_iff)

lemma keys_Map_set: "fst ` set (Map_set k v m) = insert k (fst ` set m)"
  by (induction m) auto

lemma distinct_Map_set: "distinct (map fst m) \<Longrightarrow> distinct (map fst (Map_set k v m))"
  by (induction m) (auto simp: keys_Map_set)

lemma set_Map_set_True: "e \<in> set (Map_set k True m) \<Longrightarrow> snd e \<or> e \<in> set m"
  by (induction m) (auto split: if_splits)

lemma Map_set_same: "\<forall>e\<in>set m. snd e \<Longrightarrow> k \<in> fst ` set m \<Longrightarrow> Map_set k True m = m"
  by (induction m) (auto simp: prod_eq_iff)

lemma new_mapping_aux:
  "distinct (map fst m) \<Longrightarrow>
   distinct (map fst (foldl (\<lambda>m item. Map_set item False m) m items)) \<and>
   map_of (foldl (\<lambda>m item. Map_set item False m) m items) =
     (\<lambda>k. if k \<in> set items then Some False else map_of m k)"
  by (induction items arbitrary: m) (auto simp: distinct_Map_set map_of_Map_set fun_eq_iff)

lemma map_of_new:
  "map_of (mapping (Aggregator_new D cb)) k = (if k \<in> set D then Some False else None)"
  using new_mapping_aux[of "[]" D] by (simp add: Aggregator_new_def)

lemma distinct_new: "distinct (map fst (mapping (Aggregator_new D cb)))"
  using new_mapping_aux[of "[]" D] by (simp add: Aggregator_new_def)

lemma callback_new: "callback (Aggregator_new D cb) = cb"
  by (simp add: Aggregator_new_def)

lemma aggregate_fst: "fst (aggregate call k a w) = a\<lparr>mapping := Map_set k True (mapping a)\<rparr>"
  by (simp add: aggregate_def Let_def)

lemma aggregate_all_callback: "callback (fst (aggregate_all call ks a w)) = callback a"
  by (induction ks arbitrary: a w) (auto simp: aggregate_def Let_def split: prod.splits if_splits)

lemma aggregate_all_distinct:
  "distinct (map fst (mapping a)) \<Longrightarrow> distinct (map fst (mapping (fst (aggregate_all call ks a w))))"
  by (induction ks arbitrary: a w)
     (auto simp: aggregate_def Let_def distinct_Map_set split: prod.splits if_splits)

lemma aggregate_all_map_of:
  "map_of (mapping (fst (aggregate_all call ks a w))) =
     (\<lambda>k. if k \<in> set ks then Some True else map_of (mapping a) k)"
  by (induction ks arbitrary: a w)
     (auto simp: aggregate_def Let_def map_of_Map_set fun_eq_iff split: prod.splits if_splits)

lemma aggregate_all_append:
  "aggregate_all call (xs @ ys) a w =
     (case aggregate_all call xs a w of (a', w') \<Rightarrow> aggregate_all call ys a' w')"
  by (induction xs arbitrary: a w) (auto split: prod.splits)

text \<open>
  While a key of the aggregator is still marked \<open>false\<close> and is not among the keys
  passed to \<open>aggregate\<close>, the callback is not called.
\<close>

lemma not_ready_quiet:
  "map_of (mapping a) k0 = Some False \<Longrightarrow> k0 \<notin> set ks \<Longrightarrow> snd (aggregate_all call ks a w) = w"
proof (induction ks arbitrary: a w)
  case Nil
  then show ?case by simp
next
  case (Cons k ks)
  let ?a = "a\<lparr>mapping := Map_set k True (mapping a)\<rparr>"
  from Cons.prems have m: "map_of (mapping ?a) k0 = Some False"
    by (simp add: map_of_Map_set)
  then have "(k0, False) \<in> set (mapping ?a)" by (rule map_of_SomeD)
  then have "\<not> is_ready ?a" by (force simp: is_ready_iff)
  then have "aggregate call k a w = (?a, w)" by (simp add: aggregate_def Let_def)
  with Cons.IH[OF m] Cons.prems(2) show ?case by simp
qed

lemma all_marked_ready:
  assumes d: "distinct (map fst (mapping a))"
    and m: "\<And>k v. map_of (mapping a) k = Some v \<Longrightarrow> v"
  shows "is_ready a"
  unfolding is_ready_iff
proof
  fix e assume "e \<in> set (mapping a)"
  then have "(fst e, snd e) \<in> set (mapping a)" by simp
  with d have "map_of (mapping a) (fst e) = Some (snd e)" by (rule map_of_is_SomeI)
  then show "snd e" by (rule m)
qed




text \<open>
  Claim C3, as the code has it: on an aggregator all of whose keys are marked complete,
  \<open>aggregate\<close> on a key that is already there leaves the aggregator as it is and
  calls the callback once more.
\<close>

theorem repeated_aggregate_fires_again:
  "is_ready a \<and> k \<in> fst ` set (mapping a) \<longrightarrow> aggregate call k a w = (a, call (callback a) w)"
proof
  assume r: "is_ready a \<and> k \<in> fst ` set (mapping a)"
  then have "Map_set k True (mapping a) = mapping a"
    by (intro Map_set_same) (auto simp: is_ready_iff)
  with r show "aggregate call k a w = (a, call (callback a) w)"
    by (simp add: aggregate_def)
qed

theorem repeated_aggregate_witness:
  "aggregate id (1::nat) \<lparr>mapping = [(1, True), (2, True)], callback = Suc\<rparr> (1::nat) =
     (\<lparr>mapping = [(1, True), (2, True)], callback = Suc\<rparr>, 2)"
  using repeated_aggregate_fires_again
    [of "\<lparr>mapping = [(1::nat, True), (2, True)], callback = Suc\<rparr>" 1 id "1::nat"]
  by (simp add: is_ready_def)

text \<open>
  Claim C3 as stated fails: over the keys \<open>1\<close> and \<open>2\<close>, the callback has been called
  once when both are marked, and a second time when \<open>1\<close> is marked again.
\<close>

theorem repeated_aggregate_counterexample:
  "snd (aggregate_all id [1, 2] (Aggregator_new [1, 2::nat] Suc) (0::nat)) = 1 \<and>
   snd (aggregate_all id [1, 2, 1] (Aggregator_new [1, 2::nat] Suc) (0::nat)) = 2"
  by (simp add: Aggregator_new_def aggregate_def is_ready_def)

text \<open>
  Claim C9: through any sequence of \<open>aggregate\<close> calls, a key whose flag is \<open>true\<close>
  keeps the flag \<open>true\<close>, and an aggregator for which \<open>is_ready()\<close> holds keeps it.
\<close>

theorem readiness_monotone:
  "(map_of (mapping a) k = Some True \<longrightarrow>
      map_of (mapping (fst (aggregate_all call ds a w))) k = Some True) \<and>
   (is_ready a \<longrightarrow> is_ready (fst (aggregate_all call ds a w)))"
proof (induction ds arbitrary: a w)
  case Nil
  show ?case by simp
next
  case (Cons d ds)
  let ?a = "a\<lparr>mapping := Map_set d True (mapping a)\<rparr>"
  obtain w' where s: "aggregate call d a w = (?a, w')"
    using aggregate_fst[of call d a w] by (cases "aggregate call d a w") auto
  have 1: "map_of (mapping a) k = Some True \<longrightarrow> map_of (mapping ?a) k = Some True"
    by (simp add: map_of_Map_set)
  have 2: "is_ready a \<longrightarrow> is_ready ?a"
    using set_Map_set_True[of _ d "mapping a"] by (auto simp: is_ready_iff)
  from Cons.IH[of ?a w'] 1 2 show ?case by (simp add: s)
qed

theorem readiness_monotone_witness:
  "map_of (mapping (fst (aggregate_all id [2, 1]
      \<lparr>mapping = [(1::nat, True)], callback = Suc\<rparr> (0::nat)))) 1 = Some True \<and>
   is_ready (fst (aggregate_all id [2, 1] \<lparr>mapping = [(1::nat, True)], callback = Suc\<rparr> (0::nat)))"
  using readiness_monotone[of "\<lparr>mapping = [(1::nat, True)], callback = Suc\<rparr>" 1 id "[2, 1]" "0::nat"]
  by (simp add: is_ready_def)

section \<open>Properties of the router\<close>

lemma handlers_foldl_on:
  "handlers (foldl (\<lambda>fs (s, m, cb). on re s m cb fs) fs0 regs) =
     handlers fs0 @ map (\<lambda>(s, m, cb). AnalysisFileHandler_new re m s cb) regs"
  by (induction regs arbitrary: fs0) (auto simp: on_def)

lemma handlers_register_all:
  "handlers (register_all re regs) = map (\<lambda>(s, m, cb). AnalysisFileHandler_new re m s cb) regs"
  by (simp add: register_all_def handlers_foldl_on AnalysisFiles_new_def)

lemma run_loop_skip:
  "\<forall>g\<in>set pre. \<not> (stream g = s \<and> matcher g file) \<Longrightarrow>
   run_loop call (pre @ rest) s uri file contents w = run_loop call rest s uri file contents w"
  by (induction pre) auto

lemma run_loop_none:
  "\<forall>g\<in>set hs. \<not> (stream g = s \<and> matcher g file) \<Longrightarrow>
   run_loop call hs s uri file contents w = (Undefined, w)"
  using run_loop_skip[where pre = hs and rest = "[]"] by simp

text \<open>
  Claim C6. For a registry built from the registrations \<open>regs\<close>, in their order:
  \<^item> when \<open>(s, m, cb)\<close> is the first registration whose stream is \<open>s\<close> and whose pattern
    \<open>m\<close> matches the file name, \<open>run\<close> for the stream \<open>s\<close> is exactly the call of \<open>cb\<close>
    on \<open>(uri, file, contents)\<close>: it returns what \<open>cb\<close> returns, and the state is the one
    \<open>cb\<close> leaves, so no other callback has run;
  \<^item> when no registration has the stream and matches, \<open>run\<close> returns \<open>undefined\<close> and
    leaves the state as it is.
\<close>

theorem run_first_match:
  "(regs = pre @ (s, m, cb) # post \<and> (\<forall>(s', m', cb')\<in>set pre. \<not> (s' = s \<and> re m' file)) \<and> re m file
      \<longrightarrow> run call (register_all re regs) s uri file contents w = call cb uri file contents w) \<and>
   ((\<forall>(s', m', cb')\<in>set regs. \<not> (s' = s \<and> re m' file))
      \<longrightarrow> run call (register_all re regs) s uri file contents w = (Undefined, w))"
proof (intro conjI impI)
  assume a: "regs = pre @ (s, m, cb) # post \<and> (\<forall>(s', m', cb')\<in>set pre. \<not> (s' = s \<and> re m' file)) \<and> re m file"
  let ?mk = "\<lambda>(s, m, cb). AnalysisFileHandler_new re m s cb"
  have "\<forall>g\<in>set (map ?mk pre). \<not> (stream g = s \<and> matcher g file)"
    using a by (auto simp: AnalysisFileHandler_new_def)
  then have "run_loop call (map ?mk pre @ map ?mk ((s, m, cb) # post)) s uri file contents w =
      run_loop call (map ?mk ((s, m, cb) # post)) s uri file contents w"
    by (rule run_loop_skip)
  then show "run call (register_all re regs) s uri file contents w = call cb uri file contents w"
    using a by (simp add: run_def handlers_register_all AnalysisFileHandler_new_def)
next
  assume a: "\<forall>(s', m', cb')\<in>set regs. \<not> (s' = s \<and> re m' file)"
  let ?mk = "\<lambda>(s, m, cb). AnalysisFileHandler_new re m s cb"
  have "\<forall>g\<in>set (map ?mk regs). \<not> (stream g = s \<and> matcher g file)"
    using a by (auto simp: AnalysisFileHandler_new_def)
  then show "run call (register_all re regs) s uri file contents w = (Undefined, w)"
    by (simp add: run_def handlers_register_all run_loop_none)
qed

theorem run_first_match_witness:
  "run (\<lambda>cb uri file contents w. (Value cb, cb # w))
      (register_all (\<lambda>p s. p = s) [(Diagnostics, ''a'', 1::nat), (CodeLens, ''b'', 2), (CodeLens, ''a'', 3), (CodeLens, ''a'', 4)])
      CodeLens ''u'' ''a'' () [] = (Value 3, [3]) \<and>
   run (\<lambda>cb uri file contents w. (Value cb, cb # w))
      (register_all (\<lambda>p s. p = s) [(Diagnostics, ''a'', 1::nat), (CodeLens, ''b'', 2)])
      CodeLens ''u'' ''a'' () [] = (Undefined, [])"
proof -
  let ?call = "\<lambda>(cb::nat) (uri::string) (file::string) (contents::unit) w. (Value cb, cb # w)"
  let ?re = "\<lambda>(p::string) s. p = s"
  have 1: "[(Diagnostics, ''a'', 1::nat), (CodeLens, ''b'', 2), (CodeLens, ''a'', 3), (CodeLens, ''a'', 4)] =
      [(Diagnostics, ''a'', 1), (CodeLens, ''b'', 2)] @ (CodeLens, ''a'', 3) # [(CodeLens, ''a'', 4)] \<and>
      (\<forall>(s', m', cb')\<in>set [(Diagnostics, ''a'', 1::nat), (CodeLens, ''b'', 2)]. \<not> (s' = CodeLens \<and> ?re m' ''a'')) \<and>
      ?re ''a'' ''a''"
    by simp
  have 2: "\<forall>(s', m', cb')\<in>set [(Diagnostics, ''a'', 1::nat), (CodeLens, ''b'', 2)]. \<not> (s' = CodeLens \<and> ?re m' ''a'')"
    by simp
  from run_first_match[of "[(Diagnostics, ''a'', 1::nat), (CodeLens, ''b'', 2), (CodeLens, ''a'', 3), (CodeLens, ''a'', 4)]"
      "[(Diagnostics, ''a'', 1), (CodeLens, ''b'', 2)]" CodeLens "''a''" 3 "[(CodeLens, ''a'', 4)]" ?re "''a''" ?call "''u''" "()" "[]"] 1
  have "run ?call (register_all ?re [(Diagnostics, ''a'', 1::nat), (CodeLens, ''b'', 2), (CodeLens, ''a'', 3), (CodeLens, ''a'', 4)])
      CodeLens ''u'' ''a'' () [] = (Value 3, [3])" by blast
  moreover
  from run_first_match[of "[(Diagnostics, ''a'', 1::nat), (CodeLens, ''b'', 2)]" _ CodeLens _ _ _ ?re "''a''" ?call "''u''" "()" "[]"] 2
  have "run ?call (register_all ?re [(Diagnostics, ''a'', 1::nat), (CodeLens, ''b'', 2)])
      CodeLens ''u'' ''a'' () [] = (Undefined, [])" by blast
  ultimately show ?thesis by simp
qed

section \<open>Properties of the server\<close>

lemma start_fields [simp]:
  "files (start p st) = files st"
  "stack_analysis_requests (start p st) = stack_analysis_requests st"
  "stack_analysis_responses (start p st) = stack_analysis_responses st"
  "analyses (start p st) = analyses st"
  "pending (start p st) = pending st @ [p]"
  "log (start p st) = log st @ [Started p]"
  by (simp_all add: start_def)

lemma aggregate_dependency_frame:
  "files (aggregate_dependency r k st) = files st"
  "stack_analysis_requests (aggregate_dependency r k st) = stack_analysis_requests st"
  "stack_analysis_responses (aggregate_dependency r k st) = stack_analysis_responses st"
  "pending (aggregate_dependency r k st) = pending st"
  "length (analyses (aggregate_dependency r k st)) = length (analyses st)"
  by (simp_all add: aggregate_dependency_def aggregate_def send_diagnostics_def Let_def)

lemma map_update_same: "(map f xs)[r := f (xs ! r)] = map f xs"
  by (cases "r < length xs") (simp_all add: list_update_same_conv list_update_beyond)

lemma aggregate_dependency_diagnostics:
  "map diagnostics (analyses (aggregate_dependency r k st)) = map diagnostics (analyses st)"
  by (simp add: aggregate_dependency_def aggregate_def send_diagnostics_def Let_def map_update
        map_update_same)

lemma aggregate_dependency_log:
  "log (aggregate_dependency r k st) =
     log st @ Aggregated r k #
       (if is_ready ((aggregator (analyses st ! r))\<lparr>mapping := Map_set k True (mapping (aggregator (analyses st ! r)))\<rparr>)
        then [Sent (run_uri (analyses st ! callback (aggregator (analyses st ! r))))
                   (diagnostics (analyses st ! callback (aggregator (analyses st ! r))))]
        else [])"
  by (simp add: aggregate_dependency_def aggregate_def send_diagnostics_def Let_def)

lemma aggregate_dependency_mapping:
  "r < length (analyses st) \<Longrightarrow>
   mapping (aggregator (analyses (aggregate_dependency r k st) ! r)) =
     Map_set k True (mapping (aggregator (analyses st ! r)))"
  by (simp add: aggregate_dependency_def aggregate_def send_diagnostics_def Let_def)

lemma run_pipeline_fields [simp]:
  "files (run_pipeline env r k d st) = files st"
  "stack_analysis_requests (run_pipeline env r k d st) = stack_analysis_requests st"
  "stack_analysis_responses (run_pipeline env r k d st) = stack_analysis_responses st"
  "pending (run_pipeline env r k d st) = pending st"
  "length (analyses (run_pipeline env r k d st)) = length (analyses st)"
  "log (run_pipeline env r k d st) = log st @ [Pipeline r k d]"
  by (simp_all add: run_pipeline_def)

lemma metadata_cb_frame:
  "files (metadata_cb env r k resp st) = files st"
  "stack_analysis_requests (metadata_cb env r k resp st) = stack_analysis_requests st"
  "stack_analysis_responses (metadata_cb env r k resp st) = stack_analysis_responses st"
  "pending (metadata_cb env r k resp st) = pending st"
  "length (analyses (metadata_cb env r k resp st)) = length (analyses st)"
  by (simp_all add: metadata_cb_def aggregate_dependency_frame split: option.splits)

lemma metadata_cb_log:
  "\<exists>sent. log (metadata_cb env r k resp st) =
     log st @ (case resp of None \<Rightarrow> [] | Some d \<Rightarrow> [Pipeline r k d]) @ Aggregated r k # sent \<and>
     (sent = [] \<or> (\<exists>u g. sent = [Sent u g]))"
  by (simp add: metadata_cb_def aggregate_dependency_log split: option.splits)

lemma fetch_all_fold:
  "foldl (\<lambda>s k. get_metadata env e (n k) (v k) r k s) st ks =
     st\<lparr>pending := pending st @ map (\<lambda>k. HttpGet (server_url env @ ''/analyses/'' @ (e @ ''/'' @ n k @ ''/'' @ v k) @ ''/'') r k) ks,
        log := log st @ map (\<lambda>k. Started (HttpGet (server_url env @ ''/analyses/'' @ (e @ ''/'' @ n k @ ''/'' @ v k) @ ''/'') r k)) ks\<rparr>"
  by (induction ks arbitrary: st) (simp_all add: get_metadata_def start_def Let_def)

lemma collected_eq:
  "collected env uri deps st =
     st\<lparr>analyses := analyses st @ [\<lparr>run_uri = uri, diagnostics = [], aggregator = Aggregator_new deps (length (analyses st))\<rparr>],
        pending := pending st @ map (\<lambda>k. HttpGet (server_url env @ ''/analyses/'' @ (''npm'' @ ''/'' @ dep_name env k @ ''/'' @ dep_version env k) @ ''/'') (length (analyses st)) k) deps,
        log := log st @ map (\<lambda>k. Started (HttpGet (server_url env @ ''/analyses/'' @ (''npm'' @ ''/'' @ dep_name env k @ ''/'' @ dep_version env k) @ ''/'') (length (analyses st)) k)) deps\<rparr>"
  by (simp add: collected_def Let_def fetch_all_fold)


lemma ordered_append:
  "ordered (xs @ ys) \<longleftrightarrow>
     ordered xs \<and> ordered ys \<and> (\<forall>r k. Aggregated r k \<in> set xs \<longrightarrow> (\<forall>e\<in>set ys. \<not> pipeline_of r k e))"
  by (induction xs rule: ordered.induct) auto

lemma ordered_split:
  "ordered lg \<Longrightarrow> lg = pre @ Aggregated r k # post \<Longrightarrow> Pipeline r k d \<notin> set post"
  by (auto simp: ordered_append)

lemma ordered_Started: "ordered (map Started ps)"
  by (induction ps) auto

lemma Started_no_pipeline: "e \<in> set (map Started ps) \<Longrightarrow> \<not> pipeline_of r k e"
  by auto

lemma fetch_keys_append [simp]: "fetch_keys (xs @ ys) = fetch_keys xs @ fetch_keys ys"
  by (simp add: fetch_keys_def)

lemma fetch_keys_Nil [simp]: "fetch_keys [] = []"
  by (simp add: fetch_keys_def)

lemma fetch_keys_Cons [simp]: "fetch_keys (p # ps) = fetch_key p @ fetch_keys ps"
  by (simp add: fetch_keys_def)

lemma fetch_keys_remove_nth:
  "i < length ps \<Longrightarrow>
   fetch_keys ps = fetch_keys (take i ps) @ fetch_key (ps ! i) @ fetch_keys (drop (Suc i) ps) \<and>
   fetch_keys (remove_nth i ps) = fetch_keys (take i ps) @ fetch_keys (drop (Suc i) ps)"
  using id_take_nth_drop[of i ps] fetch_keys_append[of "take i ps" "ps ! i # drop (Suc i) ps"]
  by (simp add: remove_nth_def)

lemma fetch_keys_HttpGet: "fetch_keys (map (\<lambda>k. HttpGet (q k) r k) ks) = map (Pair r) ks"
  by (induction ks) auto

lemma run_loop_call_handler:
  "run_loop (call_handler env) hs s uri file contents w = (Undefined, w) \<or>
   run_loop (call_handler env) hs s uri file contents w = package_json env uri file contents w"
proof (induction hs)
  case Nil
  show ?case by simp
next
  case (Cons h hs)
  then show ?case by (cases "handler_callback h") auto
qed

lemma quiet_refl: "quiet st st"
  by (auto simp: quiet_def intro: exI[of _ "[]"])

lemma quiet_start: "fetch_key p = [] \<Longrightarrow> quiet st st1 \<Longrightarrow> quiet st (start p st1)"
  by (auto simp: quiet_def)

lemma quiet_get_stack_metadata: "quiet st st1 \<Longrightarrow> quiet st (get_stack_metadata env uri c st1)"
  by (auto simp: get_stack_metadata_def Let_def quiet_start)

lemma quiet_handle_file_event:
  assumes "handle_file_event env uri contents st = Inr st'"
  shows "quiet st st'"
proof -
  let ?st = "st\<lparr>files := (files st)\<lparr>file_data := (file_data (files st))(uri := contents)\<rparr>\<rparr>"
  from assms obtain p where p: "url_pathname env uri = Some p"
    by (auto simp: handle_file_event_def split: option.splits)
  have q: "quiet st ?st" by (auto simp: quiet_def intro: exI[of _ "[]"])
  have "run_loop (call_handler env :: handler \<Rightarrow> _ \<Rightarrow> _ \<Rightarrow> _ \<Rightarrow> _ \<Rightarrow> unit js \<times> _)
          (handlers (files ?st)) Diagnostics uri (path_basename env p) contents ?st =
          (Undefined, ?st) \<or>
        run_loop (call_handler env :: handler \<Rightarrow> _ \<Rightarrow> _ \<Rightarrow> _ \<Rightarrow> _ \<Rightarrow> unit js \<times> _)
          (handlers (files ?st)) Diagnostics uri (path_basename env p) contents ?st =
          package_json env uri (path_basename env p) contents ?st"
    by (rule run_loop_call_handler)
  then show ?thesis
    using q assms by (auto simp: handle_file_event_def p Let_def run_def package_json_def
        intro!: quiet_start quiet_get_stack_metadata)
qed

lemma quiet_stack_collector_cb:
  "stack_collector_cb env uri i c st1 = Inr st' \<Longrightarrow> quiet st st1 \<Longrightarrow> quiet st st'"
  by (cases c) (auto simp: quiet_start split: parsed.splits if_splits, auto simp: quiet_def)

lemma quiet_get_stack_metadata_cb:
  "get_stack_metadata_cb env uri c st1 = Inr st' \<Longrightarrow> quiet st st1 \<Longrightarrow> quiet st st'"
  by (cases c) (auto split: parsed.splits if_splits intro!: quiet_start, auto simp: quiet_def)


lemma fetch_inv_extend:
  assumes inv: "fetch_inv st"
    and an: "length (analyses st) \<le> length (analyses st')"
    and lg: "log st' = log st @ new"
    and on: "ordered new"
    and keys: "distinct (fetch_keys (pending st'))"
    and k2: "\<And>r k. (r, k) \<in> set (fetch_keys (pending st')) \<Longrightarrow>
        r < length (analyses st') \<and> Aggregated r k \<notin> set (log st) \<and> Aggregated r k \<notin> set new"
    and a2: "\<And>r k. Aggregated r k \<in> set new \<Longrightarrow> r < length (analyses st')"
    and p2: "\<And>r k e. Aggregated r k \<in> set (log st) \<Longrightarrow> e \<in> set new \<Longrightarrow> \<not> pipeline_of r k e"
  shows "fetch_inv st'"
  unfolding fetch_inv_def
proof (intro conjI)
  show "distinct (fetch_keys (pending st'))" by (rule keys)
  show "\<forall>(r, k)\<in>set (fetch_keys (pending st')). r < length (analyses st') \<and> Aggregated r k \<notin> set (log st')"
    using k2 by (auto simp: lg)
  show "\<forall>r k. Aggregated r k \<in> set (log st') \<longrightarrow> r < length (analyses st')"
  proof (intro allI impI)
    fix r k assume "Aggregated r k \<in> set (log st')"
    then have "Aggregated r k \<in> set (log st) \<or> Aggregated r k \<in> set new" by (simp add: lg)
    then show "r < length (analyses st')"
    proof
      assume "Aggregated r k \<in> set (log st)"
      with inv have "r < length (analyses st)" by (auto simp: fetch_inv_def)
      with an show ?thesis by simp
    qed (rule a2)
  qed
  have "ordered (log st)" using inv by (simp add: fetch_inv_def)
  then show "ordered (log st')"
    unfolding lg ordered_append using on p2 by blast
qed

lemma fetch_inv_quiet:
  assumes "fetch_inv st" and "quiet st st'"
  shows "fetch_inv st'"
proof -
  from assms(2) obtain new where n: "analyses st' = analyses st" "pending st' = pending st @ new"
    "fetch_keys new = []" "log st' = log st @ map Started new"
    by (auto simp: quiet_def)
  have a: "Aggregated r k \<notin> set (map Started new)" for r k by auto
  show ?thesis
  proof (rule fetch_inv_extend[OF assms(1) _ n(4)])
    show "length (analyses st) \<le> length (analyses st')" by (simp add: n)
    show "ordered (map Started new)" by (rule ordered_Started)
    show "distinct (fetch_keys (pending st'))" using assms(1) by (simp add: n fetch_inv_def)
    show "r < length (analyses st') \<and> Aggregated r k \<notin> set (log st) \<and> Aggregated r k \<notin> set (map Started new)"
      if "(r, k) \<in> set (fetch_keys (pending st'))" for r k
      using that assms(1) a by (auto simp: n fetch_inv_def)
    show "r < length (analyses st')" if "Aggregated r k \<in> set (map Started new)" for r k
      using that a by blast
    show "\<not> pipeline_of r k e" if "e \<in> set (map Started new)" for r k e
      using that by (rule Started_no_pipeline)
  qed
qed

lemma fetch_inv_remove:
  assumes "fetch_inv st" and "i < length (pending st)"
  shows "fetch_inv (st\<lparr>pending := remove_nth i (pending st)\<rparr>)"
proof -
  from fetch_keys_remove_nth[OF assms(2)] assms(1) show ?thesis
    by (auto simp: fetch_inv_def)
qed

lemma fetch_inv_remove_fetch:
  assumes "fetch_inv st" and "i < length (pending st)" and "pending st ! i = HttpGet q r k"
  shows "(r, k) \<notin> set (fetch_keys (remove_nth i (pending st))) \<and> r < length (analyses st) \<and>
    Aggregated r k \<notin> set (log st)"
proof -
  from fetch_keys_remove_nth[OF assms(2)] assms(1,3) show ?thesis
    by (auto simp: fetch_inv_def)
qed

lemma fetch_inv_collected:
  assumes "fetch_inv st" and "distinct deps"
  shows "fetch_inv (collected env uri deps st)"
proof -
  let ?q = "\<lambda>k. server_url env @ ''/analyses/'' @ (''npm'' @ ''/'' @ dep_name env k @ ''/'' @ dep_version env k) @ ''/''"
  let ?new = "map (\<lambda>k. HttpGet (?q k) (length (analyses st)) k) deps"
  let ?st = "collected env uri deps st"
  have l: "log ?st = log st @ map Started ?new"
    by (simp add: collected_eq)
  have p: "pending ?st = pending st @ ?new"
    by (simp add: collected_eq)
  have n: "length (analyses ?st) = Suc (length (analyses st))"
    by (simp add: collected_eq)
  have k: "fetch_keys ?new = map (Pair (length (analyses st))) deps"
    by (rule fetch_keys_HttpGet)
  have d: "distinct (map (Pair (length (analyses st))) deps)"
    using assms(2) by (simp add: distinct_map inj_on_def)
  have a: "Aggregated r k \<notin> set (map Started ?new)" for r k by auto
  have old: "r < length (analyses st)" if "(r, k) \<in> set (fetch_keys (pending st))" for r k
    using that assms(1) by (auto simp: fetch_inv_def)
  show ?thesis
  proof (rule fetch_inv_extend[OF assms(1) _ l])
    show "length (analyses st) \<le> length (analyses ?st)" by (simp add: n)
    show "ordered (map Started ?new)" by (rule ordered_Started)
    show "distinct (fetch_keys (pending ?st))"
      unfolding p fetch_keys_append k using assms(1) d old by (auto simp: fetch_inv_def)
    show "r < length (analyses ?st) \<and> Aggregated r k \<notin> set (log st) \<and> Aggregated r k \<notin> set (map Started ?new)"
      if "(r, k) \<in> set (fetch_keys (pending ?st))" for r k
    proof -
      from that have "(r, k) \<in> set (fetch_keys (pending st)) \<or> r = length (analyses st)"
        unfolding p fetch_keys_append k by auto
      then have "r < length (analyses ?st) \<and> Aggregated r k \<notin> set (log st)"
        using assms(1) unfolding n by (auto simp: fetch_inv_def)
      with a show ?thesis by blast
    qed
    show "r < length (analyses ?st)" if "Aggregated r k \<in> set (map Started ?new)" for r k
      using that a by blast
    show "\<not> pipeline_of r k e" if "e \<in> set (map Started ?new)" for r k e
      using that by (rule Started_no_pipeline)
  qed
qed

lemma fetch_inv_metadata_cb:
  assumes "fetch_inv st" and "(r, k) \<notin> set (fetch_keys (pending st))" and "r < length (analyses st)"
    and "Aggregated r k \<notin> set (log st)"
  shows "fetch_inv (metadata_cb env r k resp st)"
proof -
  let ?st = "metadata_cb env r k resp st"
  let ?new = "\<lambda>sent. (case resp of None \<Rightarrow> [] | Some d \<Rightarrow> [Pipeline r k d]) @ Aggregated r k # sent"
  obtain sent where l: "log ?st = log st @ ?new sent"
    and s: "sent = [] \<or> (\<exists>u g. sent = [Sent u g])"
    using metadata_cb_log[of env r k resp st] by blast
  have o: "ordered (?new sent)"
    using s by (auto split: option.splits)
  have p: "r' = r \<and> k' = k" if "e \<in> set (?new sent)" "pipeline_of r' k' e" for e r' k'
    using that s by (auto split: option.splits)
  have g: "r' = r \<and> k' = k" if "Aggregated r' k' \<in> set (?new sent)" for r' k'
    using that s by (auto split: option.splits)
  show ?thesis
  proof (rule fetch_inv_extend[OF assms(1) _ l])
    show "length (analyses st) \<le> length (analyses ?st)" by (simp add: metadata_cb_frame)
    show "ordered (?new sent)" by (rule o)
    show "distinct (fetch_keys (pending ?st))"
      using assms(1) by (simp add: metadata_cb_frame fetch_inv_def)
    show "r' < length (analyses ?st) \<and> Aggregated r' k' \<notin> set (log st) \<and> Aggregated r' k' \<notin> set (?new sent)"
      if "(r', k') \<in> set (fetch_keys (pending ?st))" for r' k'
    proof -
      from that have m: "(r', k') \<in> set (fetch_keys (pending st))" by (simp add: metadata_cb_frame)
      with assms(1) have "r' < length (analyses ?st) \<and> Aggregated r' k' \<notin> set (log st)"
        by (auto simp: metadata_cb_frame fetch_inv_def)
      moreover have "Aggregated r' k' \<notin> set (?new sent)" using g[of r' k'] m assms(2) by blast
      ultimately show ?thesis by blast
    qed
    show "r' < length (analyses ?st)" if "Aggregated r' k' \<in> set (?new sent)" for r' k'
      using g[OF that] assms(3) by (simp add: metadata_cb_frame)
    show "\<not> pipeline_of r' k' e" if "Aggregated r' k' \<in> set (log st)" "e \<in> set (?new sent)" for r' k' e
      using p[of e r' k'] that assms(4) by blast
  qed
qed

text \<open>What one event can do.\<close>

lemma deliver_cases:
  assumes "deliver env ev st = Inr st'"
  shows "quiet st st' \<or>
    (\<exists>i. i < length (pending st) \<and> fetch_key (pending st ! i) = [] \<and>
       quiet (st\<lparr>pending := remove_nth i (pending st)\<rparr>) st') \<or>
    (\<exists>i uri deps. ev = Complete i (Resolved deps) \<and> i < length (pending st) \<and>
       st' = collected env uri deps (st\<lparr>pending := remove_nth i (pending st)\<rparr>)) \<or>
    (\<exists>i q r k resp. i < length (pending st) \<and> pending st ! i = HttpGet q r k \<and>
       st' = metadata_cb env r k resp (st\<lparr>pending := remove_nth i (pending st)\<rparr>))"
proof (cases ev)
  case (DidOpen uri body)
  with assms show ?thesis by (auto intro: quiet_handle_file_event)
next
  case (DidChange uri changes)
  with assms show ?thesis
    by (cases changes) (auto simp: quiet_def intro: exI[of _ "[]"])
next
  case (DidSave uri)
  with assms show ?thesis by (auto intro: quiet_handle_file_event)
next
  case (Complete i c)
  let ?st = "st\<lparr>pending := remove_nth i (pending st)\<rparr>"
  from assms Complete have i: "i < length (pending st)"
    and c: "continue env (pending st ! i) c ?st = Inr st'"
    by (auto split: if_splits)
  show ?thesis
  proof (cases "pending st ! i")
    case (Post q m orig uri)
    with c have "quiet ?st st'" by (auto intro: quiet_get_stack_metadata_cb quiet_refl)
    with i Post show ?thesis by auto
  next
    case (Get q uri rid)
    with c have "quiet ?st st'" by (auto intro: quiet_stack_collector_cb quiet_refl)
    with i Get show ?thesis by auto
  next
    case (Timeout delay uri rid)
    with c have "quiet ?st st'"
      by (cases c) (auto simp: stack_collector_def Let_def intro!: quiet_start quiet_refl)
    with i Timeout show ?thesis by auto
  next
    case (Collect uri contents)
    with c have "(\<exists>deps. c = Resolved deps \<and> st' = collected env uri deps ?st) \<or> quiet ?st st'"
      by (cases c) (auto intro: quiet_refl)
    with i Collect Complete show ?thesis by auto
  next
    case (HttpGet q r k)
    with c have "\<exists>resp. st' = metadata_cb env r k resp ?st"
      by (cases c) (auto split: if_splits parsed.splits)
    with i HttpGet show ?thesis by blast
  qed
qed

lemma deliver_fetch_inv:
  assumes "deliver env ev st = Inr st'" and "fetch_inv st"
    and "\<And>i deps. ev = Complete i (Resolved deps) \<Longrightarrow> distinct deps"
  shows "fetch_inv st'"
  using deliver_cases[OF assms(1)]
proof (elim disjE exE conjE)
  assume "quiet st st'"
  with assms(2) show ?thesis by (rule fetch_inv_quiet)
next
  fix i assume "i < length (pending st)" "quiet (st\<lparr>pending := remove_nth i (pending st)\<rparr>) st'"
  with assms(2) show ?thesis by (blast intro: fetch_inv_quiet fetch_inv_remove)
next
  fix i uri deps
  assume "ev = Complete i (Resolved deps)" "i < length (pending st)"
    "st' = collected env uri deps (st\<lparr>pending := remove_nth i (pending st)\<rparr>)"
  with assms(2,3) show ?thesis by (auto intro!: fetch_inv_collected fetch_inv_remove)
next
  fix i q r k resp
  assume a: "i < length (pending st)" "pending st ! i = HttpGet q r k"
    "st' = metadata_cb env r k resp (st\<lparr>pending := remove_nth i (pending st)\<rparr>)"
  from fetch_inv_remove_fetch[OF assms(2) a(1,2)] fetch_inv_remove[OF assms(2) a(1)]
  show ?thesis unfolding a(3) by (intro fetch_inv_metadata_cb) auto
qed

lemma exec_fetch_inv:
  "exec env evs st = Inr st' \<Longrightarrow> fetch_inv st \<Longrightarrow>
   (\<forall>i deps. Complete i (Resolved deps) \<in> set evs \<longrightarrow> distinct deps) \<Longrightarrow> fetch_inv st'"
proof (induction evs arbitrary: st)
  case Nil
  then show ?case by simp
next
  case (Cons ev evs)
  from Cons.prems(1) obtain st1 where d: "deliver env ev st = Inr st1" and e: "exec env evs st1 = Inr st'"
    by (auto split: sum.splits)
  have "fetch_inv st1" using d Cons.prems(2,3) by (auto intro: deliver_fetch_inv)
  with e Cons.prems(3) show ?case by (auto intro: Cons.IH)
qed

lemma fetch_inv_init: "fetch_inv (init env)"
  by (simp add: fetch_inv_def init_def)

lemma deliver_handlers:
  assumes "deliver env ev st = Inr st'"
  shows "handlers (files st') = handlers (files st)"
  using deliver_cases[OF assms]
  by (auto simp: quiet_def collected_eq metadata_cb_frame)

lemma exec_handlers:
  "exec env evs st = Inr st' \<Longrightarrow> handlers (files st') = handlers (files st)"
proof (induction evs arbitrary: st)
  case Nil
  then show ?case by simp
next
  case (Cons ev evs)
  from Cons.prems obtain st1 where d: "deliver env ev st = Inr st1" and e: "exec env evs st1 = Inr st'"
    by (auto split: sum.splits)
  from Cons.IH[OF e] deliver_handlers[OF d] show ?case by simp
qed

text \<open>
  Claim C10, as the code has it. In every state the server reaches from module
  initialisation, whatever events it has received, \<open>handle_code_lens_event(uri)\<close>
  never returns a list of lenses: for a \<open>uri\<close> with a path it returns \<open>undefined\<close> and
  changes nothing (the only registration is the one of line 269, for the stream
  \<open>Diagnostics\<close>, and no event adds another), and for a \<open>uri\<close> without a path it
  throws a \<open>TypeError\<close>.
\<close>

theorem code_lens_undefined:
  "exec env evs (init env) = Inr st \<longrightarrow>
     handle_code_lens_event env uri st =
       (case url_pathname env uri of None \<Rightarrow> Inl TypeError | Some path_name \<Rightarrow> Inr (Undefined, st))"
proof
  assume "exec env evs (init env) = Inr st"
  then have "handlers (files st) = handlers (files (init env))" by (rule exec_handlers)
  then show "handle_code_lens_event env uri st =
       (case url_pathname env uri of None \<Rightarrow> Inl TypeError | Some path_name \<Rightarrow> Inr (Undefined, st))"
    by (simp add: handle_code_lens_event_def Let_def run_def init_def on_def AnalysisFiles_new_def
        AnalysisFileHandler_new_def split: option.splits)
qed

theorem code_lens_undefined_witness:
  "\<exists>st. exec sample_env [DidOpen package_uri manifest_none] (init sample_env) = Inr st \<and>
     handle_code_lens_event sample_env package_uri st = Inr (Undefined :: unit js, st) \<and>
     handle_code_lens_event sample_env ''untitled:Untitled-1'' st = (Inl TypeError :: error + unit js \<times> _)"
proof -
  have "run_error sample_env [DidOpen package_uri manifest_none] = None"
    by code_simp
  then obtain st where e: "exec sample_env [DidOpen package_uri manifest_none] (init sample_env) = Inr st"
    by (auto simp: run_error_def split: sum.splits)
  have p: "url_pathname sample_env package_uri = Some ''/home/project/package.json''"
    "url_pathname sample_env ''untitled:Untitled-1'' = None"
    by code_simp+
  from e code_lens_undefined[of sample_env "[DidOpen package_uri manifest_none]" st package_uri]
  have 1: "handle_code_lens_event sample_env package_uri st = Inr (Undefined :: unit js, st)"
    by (simp add: p)
  from e code_lens_undefined[of sample_env "[DidOpen package_uri manifest_none]" st "''untitled:Untitled-1''"]
  have 2: "handle_code_lens_event sample_env ''untitled:Untitled-1'' st = (Inl TypeError :: error + unit js \<times> _)"
    by (simp add: p)
  show ?thesis by (rule exI[of _ st]) (rule conjI[OF e conjI[OF 1 2]])
qed

text \<open>
  Claim C10 as stated fails for a URI without a path: for \<open>untitled:Untitled-1\<close>,
  \<open>url.parse(uri).pathname\<close> is \<open>null\<close> and \<open>path.basename\<close> throws before the
  dispatch, so nothing is returned.
\<close>

theorem code_lens_undefined_counterexample:
  "handle_code_lens_event sample_env ''untitled:Untitled-1'' (init sample_env) =
     (Inl TypeError :: error + unit js \<times> (nat, string, string) state)"
  by (simp add: handle_code_lens_event_def sample_env_def)

text \<open>
  Claim C7, as the code has it. When the callback of a pending poll
  (\<open>Get q uri rid\<close>) runs with a response of status code \<open>code\<close>:
  \<^item> a body that parses to \<open>data\<close> with \<open>data.status == 'success'\<close> stores \<open>data\<close>
    under \<open>uri\<close>; the poll leaves the pending operations and nothing is started;
  \<^item> otherwise, a body that parses and the code \<open>202\<close> start exactly one timer of
    \<open>10000\<close> ms for the same \<open>uri\<close> and \<open>rid\<close>, and store nothing;
  \<^item> otherwise, a body that parses stores nothing and starts nothing;
  \<^item> a body that does not parse, and the body \<open>null\<close>, make the callback throw,
    whatever the status code: nothing is stored or started.

  And when a pending timer for \<open>uri\<close> and \<open>rid\<close> fires, exactly one poll is started,
  the \<open>request.get\<close> of \<open>server_url/stack-analyses/rid\<close>.
\<close>

theorem poll_response:
  "(i < length (pending st) \<and> pending st ! i = Get q uri rid \<longrightarrow>
     (JSON_parse env body = Val data \<and> status_success env data \<longrightarrow>
        deliver env (Complete i (Response code body)) st =
          Inr (st\<lparr>pending := remove_nth i (pending st),
                 stack_analysis_responses := (stack_analysis_responses st)(uri \<mapsto> data)\<rparr>)) \<and>
     (JSON_parse env body = Val data \<and> \<not> status_success env data \<and> code = 202 \<longrightarrow>
        deliver env (Complete i (Response code body)) st =
          Inr (st\<lparr>pending := remove_nth i (pending st) @ [Timeout 10000 uri rid],
                 log := log st @ [Started (Timeout 10000 uri rid)]\<rparr>)) \<and>
     (JSON_parse env body = Val data \<and> \<not> status_success env data \<and> code \<noteq> 202 \<longrightarrow>
        deliver env (Complete i (Response code body)) st =
          Inr (st\<lparr>pending := remove_nth i (pending st)\<rparr>)) \<and>
     (JSON_parse env body = Throws \<longrightarrow>
        deliver env (Complete i (Response code body)) st = Inl SyntaxError) \<and>
     (JSON_parse env body = Null \<longrightarrow>
        deliver env (Complete i (Response code body)) st = Inl TypeError)) \<and>
   (i < length (pending st) \<and> pending st ! i = Timeout delay uri rid \<longrightarrow>
     deliver env (Complete i Fired) st =
       Inr (st\<lparr>pending := remove_nth i (pending st) @
                 [Get (server_url env @ ''/stack-analyses/'' @ rid) uri rid],
              log := log st @ [Started (Get (server_url env @ ''/stack-analyses/'' @ rid) uri rid)]\<rparr>))"
  by (simp add: start_def stack_collector_def Let_def)

theorem poll_response_witness:
  "deliver sample_env (Complete 1 (Response 200 success_body)) (state_after sample_env polling_events) =
     Inr ((state_after sample_env polling_events)
            \<lparr>pending := [Collect package_uri (Some manifest_none)],
             stack_analysis_responses :=
               (stack_analysis_responses (state_after sample_env polling_events))(package_uri \<mapsto> success_body)\<rparr>) \<and>
   deliver sample_env (Complete 1 (Response 202 progress_body)) (state_after sample_env polling_events) =
     Inr ((state_after sample_env polling_events)
            \<lparr>pending := [Collect package_uri (Some manifest_none), Timeout 10000 package_uri ''42''],
             log := log (state_after sample_env polling_events) @
                      [Started (Timeout 10000 package_uri ''42'')]\<rparr>) \<and>
   deliver sample_env (Complete 1 (Response 500 error_body)) (state_after sample_env polling_events) =
     Inr ((state_after sample_env polling_events)\<lparr>pending := [Collect package_uri (Some manifest_none)]\<rparr>) \<and>
   deliver sample_env (Complete 1 Fired) (state_after sample_env waiting_events) =
     Inr ((state_after sample_env waiting_events)
            \<lparr>pending := [Collect package_uri (Some manifest_none),
                         Get ''http://host/api/v1/stack-analyses/42'' package_uri ''42''],
             log := log (state_after sample_env waiting_events) @
                      [Started (Get ''http://host/api/v1/stack-analyses/42'' package_uri ''42'')]\<rparr>)"
proof -
  let ?P = "state_after sample_env polling_events"
  let ?W = "state_after sample_env waiting_events"
  have p: "pending ?P = [Collect package_uri (Some manifest_none),
      Get ''http://host/api/v1/stack-analyses/42'' package_uri ''42'']"
    by code_simp
  have w: "pending ?W = [Collect package_uri (Some manifest_none), Timeout 10000 package_uri ''42'']"
    by code_simp
  have e: "JSON_parse sample_env success_body = Val success_body"
    "JSON_parse sample_env progress_body = Val progress_body"
    "JSON_parse sample_env error_body = Val error_body"
    "status_success sample_env success_body"
    "\<not> status_success sample_env progress_body" "\<not> status_success sample_env error_body"
    by code_simp+
  have u: "server_url sample_env = ''http://host/api/v1''"
    by (simp add: sample_env_def)
  have g: "1 < length (pending ?P) \<and>
      pending ?P ! 1 = Get ''http://host/api/v1/stack-analyses/42'' package_uri ''42''"
    and t: "1 < length (pending ?W) \<and> pending ?W ! 1 = Timeout 10000 package_uri ''42''"
    by (simp_all add: p w)
  from g e poll_response[where i = 1 and st = ?P and env = sample_env
      and q = "''http://host/api/v1/stack-analyses/42''" and uri = package_uri and rid = "''42''"
      and body = success_body and data = success_body and code = 200]
  have 1: "deliver sample_env (Complete 1 (Response 200 success_body)) ?P =
     Inr (?P\<lparr>pending := [Collect package_uri (Some manifest_none)],
            stack_analysis_responses := (stack_analysis_responses ?P)(package_uri \<mapsto> success_body)\<rparr>)"
    by (simp add: p remove_nth_def)
  from g e poll_response[where i = 1 and st = ?P and env = sample_env
      and q = "''http://host/api/v1/stack-analyses/42''" and uri = package_uri and rid = "''42''"
      and body = progress_body and data = progress_body and code = 202]
  have 2: "deliver sample_env (Complete 1 (Response 202 progress_body)) ?P =
     Inr (?P\<lparr>pending := [Collect package_uri (Some manifest_none), Timeout 10000 package_uri ''42''],
            log := log ?P @ [Started (Timeout 10000 package_uri ''42'')]\<rparr>)"
    by (simp add: p remove_nth_def)
  from g e poll_response[where i = 1 and st = ?P and env = sample_env
      and q = "''http://host/api/v1/stack-analyses/42''" and uri = package_uri and rid = "''42''"
      and body = error_body and data = error_body and code = 500]
  have 3: "deliver sample_env (Complete 1 (Response 500 error_body)) ?P =
     Inr (?P\<lparr>pending := [Collect package_uri (Some manifest_none)]\<rparr>)"
    by (simp add: p remove_nth_def)
  from t poll_response[where i = 1 and st = ?W and env = sample_env and delay = 10000
      and uri = package_uri and rid = "''42''"]
  have 4: "deliver sample_env (Complete 1 Fired) ?W =
     Inr (?W\<lparr>pending := [Collect package_uri (Some manifest_none),
                         Get ''http://host/api/v1/stack-analyses/42'' package_uri ''42''],
            log := log ?W @ [Started (Get ''http://host/api/v1/stack-analyses/42'' package_uri ''42'')]\<rparr>)"
    by (simp add: w u remove_nth_def)
  show ?thesis by (rule conjI[OF 1 conjI[OF 2 conjI[OF 3 4]]])
qed

text \<open>
  Claim C7 as stated fails for a response with status code 202 whose body is not JSON.
  With the poll pending, the response \<open>202\<close> with an empty body makes \<open>JSON.parse\<close>
  throw: the run ends with a \<open>SyntaxError\<close>, and no further poll has been scheduled.
\<close>

theorem poll_response_counterexample:
  "run_pending sample_env polling_events =
     Some [Collect package_uri (Some manifest_none),
           Get ''http://host/api/v1/stack-analyses/42'' package_uri ''42''] \<and>
   run_error sample_env (polling_events @ [Complete 1 (Response 202 [])]) = Some SyntaxError"
  by code_simp

text \<open>
  Claim C5, as the code has it. When the \<open>end\<close> handler of a pending fetch for
  dependency \<open>k\<close> of run \<open>r\<close> runs with a status code other than 200 and 202, or with
  one of these and the body \<open>null\<close>: the pipeline is not run (the buffers are unchanged
  and the log gains no \<open>Pipeline\<close> entry), \<open>aggregator.aggregate(k)\<close> is called, after
  which at most the diagnostics are sent, and \<open>k\<close> is marked \<open>true\<close> in the aggregator
  of the run.
\<close>

theorem failed_fetch_completes:
  "i < length (pending st) \<and> pending st ! i = HttpGet q r k \<and>
   (code \<noteq> 200 \<and> code \<noteq> 202 \<or> (code = 200 \<or> code = 202) \<and> JSON_parse env body = Null) \<longrightarrow>
     (\<exists>st' sent. deliver env (Complete i (Response code body)) st = Inr st' \<and>
        map diagnostics (analyses st') = map diagnostics (analyses st) \<and>
        log st' = log st @ Aggregated r k # sent \<and> (sent = [] \<or> (\<exists>uri g. sent = [Sent uri g])) \<and>
        (r < length (analyses st) \<longrightarrow> map_of (mapping (aggregator (analyses st' ! r))) k = Some True))"
proof
  assume a: "i < length (pending st) \<and> pending st ! i = HttpGet q r k \<and>
   (code \<noteq> 200 \<and> code \<noteq> 202 \<or> (code = 200 \<or> code = 202) \<and> JSON_parse env body = Null)"
  let ?st = "st\<lparr>pending := remove_nth i (pending st)\<rparr>"
  let ?st' = "aggregate_dependency r k ?st"
  from a have d: "deliver env (Complete i (Response code body)) st = Inr ?st'"
    by (auto simp: metadata_cb_def)
  have 1: "map diagnostics (analyses ?st') = map diagnostics (analyses st)"
    by (simp add: aggregate_dependency_diagnostics)
  obtain sent where 2: "log ?st' = log st @ Aggregated r k # sent" "sent = [] \<or> (\<exists>uri g. sent = [Sent uri g])"
    by (simp add: aggregate_dependency_log)
  have 3: "r < length (analyses st) \<longrightarrow> map_of (mapping (aggregator (analyses ?st' ! r))) k = Some True"
    by (simp add: aggregate_dependency_mapping map_of_Map_set)
  from d 1 2 3 show "\<exists>st' sent. deliver env (Complete i (Response code body)) st = Inr st' \<and>
        map diagnostics (analyses st') = map diagnostics (analyses st) \<and>
        log st' = log st @ Aggregated r k # sent \<and> (sent = [] \<or> (\<exists>uri g. sent = [Sent uri g])) \<and>
        (r < length (analyses st) \<longrightarrow> map_of (mapping (aggregator (analyses st' ! r))) k = Some True)"
    by blast
qed

theorem failed_fetch_witness:
  "\<exists>st' sent.
     deliver sample_env (Complete 1 (Response 404 ''Not Found'')) (state_after sample_env fetching_events) =
       Inr st' \<and>
     map diagnostics (analyses st') = map diagnostics (analyses (state_after sample_env fetching_events)) \<and>
     log st' = log (state_after sample_env fetching_events) @ Aggregated 0 0 # sent \<and>
     (sent = [] \<or> (\<exists>uri g. sent = [Sent uri g])) \<and>
     map_of (mapping (aggregator (analyses st' ! 0))) 0 = Some True"
proof -
  let ?F = "state_after sample_env fetching_events"
  have "1 < length (pending ?F) \<and>
      pending ?F ! 1 = HttpGet ''http://host/api/v1/analyses/npm/dep/1.0.0/'' 0 0"
    by code_simp
  then have h: "1 < length (pending ?F) \<and>
      pending ?F ! 1 = HttpGet ''http://host/api/v1/analyses/npm/dep/1.0.0/'' 0 0 \<and>
     ((404::nat) \<noteq> 200 \<and> (404::nat) \<noteq> 202 \<or>
      ((404::nat) = 200 \<or> (404::nat) = 202) \<and> JSON_parse sample_env ''Not Found'' = Null)"
    by simp
  have l: "0 < length (analyses ?F)"
    by code_simp
  from failed_fetch_completes[of 1 ?F "''http://host/api/v1/analyses/npm/dep/1.0.0/''" 0 0 404
      sample_env "''Not Found''"] h l
  show ?thesis by blast
qed

text \<open>
  Claim C5 as stated fails: the fetch for the only dependency ends with status 404, and
  the log shows the aggregation and the publication of an empty list, and no pipeline
  run.
\<close>

theorem failed_fetch_counterexample:
  "run_log sample_env
     [DidOpen package_uri manifest_one, Complete 1 (Resolved [0]), Complete 1 (Response 404 ''Not Found'')] =
     Some [Started (Post ''http://host/api/v1/stack-analyses/'' (Some manifest_one) ''lsp'' package_uri),
           Started (Collect package_uri (Some manifest_one)),
           Started (HttpGet ''http://host/api/v1/analyses/npm/dep/1.0.0/'' 0 0),
           Aggregated 0 0,
           Sent package_uri []]"
  by code_simp

text \<open>
  Claim C2, at a manifest without dependencies: the collector resolves with the empty
  list. Nothing is sent then, and the only operation left pending is the submission of
  the stack analysis, none of whose callbacks sends diagnostics; yet \<open>is_ready()\<close>
  holds of an aggregator constructed over the empty list.
\<close>

theorem zero_dependencies_never_publish:
  "run_log sample_env [DidOpen package_uri manifest_none, Complete 1 (Resolved [])] =
     Some [Started (Post ''http://host/api/v1/stack-analyses/'' (Some manifest_none) ''lsp'' package_uri),
           Started (Collect package_uri (Some manifest_none))] \<and>
   run_pending sample_env [DidOpen package_uri manifest_none, Complete 1 (Resolved [])] =
     Some [Post ''http://host/api/v1/stack-analyses/'' (Some manifest_none) ''lsp'' package_uri] \<and>
   is_ready (Aggregator_new ([] :: nat list) (0 :: nat))"
  by code_simp

text \<open>
  Claim C4, at a document that is opened and then saved before the submission of the
  stack analysis has been answered: \<open>request.post\<close> is called twice. (When the
  submission has been answered with success before the document is saved, the request
  is in the table and the second call of \<open>get_stack_metadata\<close> returns at once: one
  \<open>request.post\<close> in all.)
\<close>

theorem second_request_submits_again:
  "run_log sample_env [DidOpen package_uri manifest_none, DidSave package_uri] =
     Some [Started (Post ''http://host/api/v1/stack-analyses/'' (Some manifest_none) ''lsp'' package_uri),
           Started (Collect package_uri (Some manifest_none)),
           Started (Post ''http://host/api/v1/stack-analyses/'' (Some manifest_none) ''lsp'' package_uri),
           Started (Collect package_uri (Some manifest_none))] \<and>
   run_log sample_env
       [DidOpen package_uri manifest_none, Complete 0 (Response 200 success_body), DidSave package_uri] =
     Some [Started (Post ''http://host/api/v1/stack-analyses/'' (Some manifest_none) ''lsp'' package_uri),
           Started (Collect package_uri (Some manifest_none)),
           Started (Timeout 10000 package_uri ''42''),
           Started (Collect package_uri (Some manifest_none))]"
  by code_simp




end
